theory Spec2Isabelle
  imports Main "HOL-Library.Word"
begin

section \<open>Data model\<close>

text \<open>
  A JavaScript string is a finite sequence of UTF-16 code units; \<open>.length\<close> counts code
  units, \<open>+\<close> concatenates them and \<open>===\<close> compares them one by one.
\<close>

type_synonym js_string = "16 word list"

definition utf16 :: "string \<Rightarrow> js_string" where
  "utf16 s = map of_char s"

text \<open>The interfaces \<open>GroupMember\<close>, \<open>LSAGGroup\<close> (with its optional \<open>id\<close>) and \<open>LSAGSignature\<close>.\<close>

record GroupMember =
  member_id :: js_string
  publicKey :: js_string

record LSAGGroup =
  group_id :: "js_string option"
  name :: js_string
  members :: "GroupMember list"

record LSAGSignature =
  ringSignature :: "js_string list"
  challenge :: js_string
  keyImage :: js_string
  message :: js_string
  groupId :: js_string

text \<open>
  What the module takes from the platform: SHA-256 of a string, rendered in hex or in
  base64; the RSA-SHA256 signature of a string under a PEM private key, rendered in base64,
  which throws on key material it cannot use; and \<open>JSON.stringify\<close> on an array of strings.
  They are parameters of the model. The record field \<open>rsa_sign P d k\<close> signs the data \<open>d\<close>
  with the key \<open>k\<close>.
\<close>

record platform =
  sha256_hex :: "js_string \<Rightarrow> js_string"
  sha256_base64 :: "js_string \<Rightarrow> js_string"
  rsa_sign :: "js_string \<Rightarrow> js_string \<Rightarrow> js_string option"
  json_stringify :: "js_string list \<Rightarrow> js_string"

datatype cause = SignFailed | GroupMustHaveId

text \<open>
  Both exported functions wrap their body in \<open>try\<close>/\<open>catch\<close> and rethrow under their own
  message; a rejected promise is the \<open>Inl\<close> of the result.
\<close>

datatype error =
    FailedToGenerateLSAGSignature cause
  | FailedToVerifyLSAGSignature

section \<open>JavaScript array and string reads\<close>

text \<open>Reading \<open>xs[i]\<close> past the end of an array gives \<open>undefined\<close> (here \<open>None\<close>), not an error.\<close>

definition js_index :: "'a list \<Rightarrow> nat \<Rightarrow> 'a option" where
  "js_index xs i = (if i < length xs then Some (xs ! i) else None)"

text \<open>A string operand of \<open>+\<close> that is \<open>undefined\<close> is rendered as the text \<open>undefined\<close>.\<close>

definition js_concat_operand :: "js_string option \<Rightarrow> js_string" where
  "js_concat_operand v = (case v of None \<Rightarrow> utf16 ''undefined'' | Some s \<Rightarrow> s)"

section \<open>Key image\<close>

definition createKeyImage :: "platform \<Rightarrow> js_string \<Rightarrow> js_string \<Rightarrow> js_string \<Rightarrow> js_string" where
  "createKeyImage P msg privateKey pubKey =
     (let hash = sha256_hex P (msg @ pubKey)
      in sha256_hex P (hash @ privateKey))"

section \<open>Signature generation\<close>

text \<open>
  The \<open>for\<close> loop of \<open>generateLSAGSignature\<close>, from index \<open>i\<close> on, over the local variables
  \<open>ringSignature\<close> and \<open>challenge\<close>. \<open>sign.sign\<close> throwing leaves the loop with the error.
  The array was created with one slot per member, so the store \<open>ringSignature[i] = ...\<close>
  is always in range and the read of \<open>ringSignature[i]\<close> that follows gives the value stored.
\<close>

function generate_loop ::
  "platform \<Rightarrow> js_string \<Rightarrow> js_string \<Rightarrow> js_string list \<Rightarrow> LSAGGroup \<Rightarrow> int \<Rightarrow> nat
     \<Rightarrow> js_string list \<times> js_string \<Rightarrow> cause + js_string list \<times> js_string" where
  "generate_loop P msg privateKey randomValues grp signerIndex i (ringSig, chal) =
     (if i < length (members grp) then
        (case (if int i = signerIndex
               then rsa_sign P (msg @ chal) privateKey
               else Some (sha256_base64 P
                            (msg @ js_concat_operand (js_index randomValues i) @ chal))) of
           None \<Rightarrow> Inl SignFailed
         | Some part \<Rightarrow>
             generate_loop P msg privateKey randomValues grp signerIndex (Suc i)
               (ringSig[i := part],
                sha256_hex P (chal @ part @ publicKey (members grp ! i))))
      else Inr (ringSig, chal))"
  by pat_completeness auto
termination
  by (relation "measure (\<lambda>(P, msg, sk, rs, grp, idx, i, st). length (members grp) - i)") auto

declare generate_loop.simps [simp del]

text \<open>
  \<open>generateLSAGSignature\<close>. The argument \<open>rand\<close> is the source of randomness: \<open>rand k\<close> is
  what the call of \<open>generateRandomScalar\<close> that fills \<open>randomValues[k]\<close> returns. The test \<open>!group.id\<close> holds for a
  missing id and for the empty string.
\<close>

definition generateLSAGSignature ::
  "platform \<Rightarrow> (nat \<Rightarrow> js_string) \<Rightarrow> js_string \<Rightarrow> js_string \<Rightarrow> js_string \<Rightarrow> LSAGGroup \<Rightarrow> int
     \<Rightarrow> error + LSAGSignature" where
  "generateLSAGSignature P rand msg privateKey signerPublicKey grp signerIndex =
     (let keyImg = createKeyImage P msg privateKey signerPublicKey;
          randomValues = map rand [0 ..< length (members grp)];
          ringSig0 = replicate (length (members grp)) [];
          chal0 = sha256_hex P
                    (msg @ json_stringify P (map publicKey (members grp))
                         @ js_concat_operand (js_index randomValues 0))
      in case generate_loop P msg privateKey randomValues grp signerIndex 0 (ringSig0, chal0) of
           Inl e \<Rightarrow> Inl (FailedToGenerateLSAGSignature e)
         | Inr (ringSig, chal) \<Rightarrow>
             (case group_id grp of
                None \<Rightarrow> Inl (FailedToGenerateLSAGSignature GroupMustHaveId)
              | Some gid \<Rightarrow>
                  if gid = [] then Inl (FailedToGenerateLSAGSignature GroupMustHaveId)
                  else Inr \<lparr> ringSignature = ringSig, challenge = chal, keyImage = keyImg,
                             message = msg, groupId = gid \<rparr>))"

section \<open>Verification\<close>

text \<open>
  The body of the \<open>for\<close> loop of \<open>verifyLSAGSignature\<close>, from index \<open>i\<close> on. The state is the
  pair of the local variables \<open>challenge\<close> and \<open>validRing\<close>; \<open>break\<close> leaves with the state
  as it is at that point.
\<close>

function verify_loop ::
  "platform \<Rightarrow> LSAGSignature \<Rightarrow> LSAGGroup \<Rightarrow> nat \<Rightarrow> js_string \<times> bool \<Rightarrow> js_string \<times> bool" where
  "verify_loop P sig grp i (chal, validRing) =
     (if i < length (members grp) then
        (let memberPubKey = publicKey (members grp ! i)
         in case js_index (ringSignature sig) i of
              None \<Rightarrow> (chal, False)
            | Some ringSignaturePart \<Rightarrow>
                if ringSignaturePart = [] \<or> length ringSignaturePart < 10
                then (chal, False)
                else verify_loop P sig grp (Suc i)
                       (sha256_hex P (chal @ ringSignaturePart @ memberPubKey), validRing))
      else (chal, validRing))"
  by pat_completeness auto
termination
  by (relation "measure (\<lambda>(P, sig, grp, i, st). length (members grp) - i)") auto

declare verify_loop.simps [simp del]

text \<open>
  \<open>verifyLSAGSignature\<close> returns \<open>validRing\<close>. Nothing in its body throws (string
  concatenation, a read past the end of an array and the digest of a string are all
  defined, and \<open>group.members[i]\<close> is read below \<open>group.members.length\<close> only), so the
  \<open>catch\<close> branch with \<open>FailedToVerifyLSAGSignature\<close> is never taken.
\<close>

definition verifyLSAGSignature :: "platform \<Rightarrow> LSAGSignature \<Rightarrow> LSAGGroup \<Rightarrow> error + bool" where
  "verifyLSAGSignature P sig grp = Inr (snd (verify_loop P sig grp 0 (challenge sig, True)))"

section \<open>Linkability\<close>

definition areLSAGSignaturesLinked :: "LSAGSignature \<Rightarrow> LSAGSignature \<Rightarrow> bool" where
  "areLSAGSignaturesLinked sig1 sig2 = (keyImage sig1 = keyImage sig2)"

section \<open>The specification's reading of the two chains\<close>

text \<open>
  The chained value of the verifier as the specification words it: starting from \<open>c\<close>, fold
  in each entry with the public key of the member at the same position.
\<close>

fun chain_spec :: "platform \<Rightarrow> js_string \<Rightarrow> js_string list \<Rightarrow> js_string list \<Rightarrow> js_string" where
  "chain_spec P c (e # es) (pk # pks) = chain_spec P (sha256_hex P (c @ e @ pk)) es pks"
| "chain_spec P c es pks = c"

text \<open>The verifier's test of one entry, as the specification words it: the entry exists and
  has length at least 10.\<close>

definition well_formed_entry :: "js_string list \<Rightarrow> nat \<Rightarrow> bool" where
  "well_formed_entry es i = (case js_index es i of None \<Rightarrow> False | Some e \<Rightarrow> 10 \<le> length e)"

text \<open>
  The ring construction as the specification words it, over the list of pairs
  \<open>(r\<^sub>i, publicKey\<^sub>i)\<close> from position \<open>i\<close> on: the entry is a signature of \<open>message || c\<close> at
  the signer's position and the base64 hash of \<open>message || r\<^sub>i || c\<close> elsewhere, then
  \<open>c\<close> becomes the hex hash of \<open>c || entry || publicKey\<^sub>i\<close>. The result is the list of entries
  in index order with the final \<open>c\<close>, or \<open>None\<close> when signing fails.
\<close>

fun buildRing_spec ::
  "platform \<Rightarrow> js_string \<Rightarrow> js_string \<Rightarrow> int \<Rightarrow> nat \<Rightarrow> (js_string \<times> js_string) list \<Rightarrow> js_string
     \<Rightarrow> (js_string list \<times> js_string) option" where
  "buildRing_spec P m sk signerIndex i [] c = Some ([], c)"
| "buildRing_spec P m sk signerIndex i ((r, pk) # rest) c =
     (case (if int i = signerIndex then rsa_sign P (m @ c) sk
            else Some (sha256_base64 P (m @ r @ c))) of
        None \<Rightarrow> None
      | Some entry \<Rightarrow>
          (case buildRing_spec P m sk signerIndex (Suc i) rest (sha256_hex P (c @ entry @ pk)) of
             None \<Rightarrow> None
           | Some (entries, c') \<Rightarrow> Some (entry # entries, c')))"

section \<open>Test data\<close>

text \<open>
  A stand-in for the platform, used only to run the functions above on concrete inputs: the
  two digests prefix their input with a tag (so they are injective, and at least ten code
  units long), signing prefixes key and data with a tag and rejects the empty key.
\<close>

definition test_platform :: platform where
  "test_platform =
     \<lparr> sha256_hex = (\<lambda>s. utf16 ''sha256-hex:'' @ s),
       sha256_base64 = (\<lambda>s. utf16 ''sha256-b64:'' @ s),
       rsa_sign = (\<lambda>d k. if k = [] then None else Some (utf16 ''rsa-sha256:'' @ k @ d)),
       json_stringify = concat \<rparr>"

definition test_group :: LSAGGroup where
  "test_group =
     \<lparr> group_id = Some (utf16 ''g1''), name = utf16 ''demo'',
       members = [\<lparr> member_id = utf16 ''a'', publicKey = utf16 ''pkA'' \<rparr>,
                  \<lparr> member_id = utf16 ''b'', publicKey = utf16 ''pkB'' \<rparr>] \<rparr>"

definition test_signature :: LSAGSignature where
  "test_signature =
     \<lparr> ringSignature = [utf16 ''0123456789'', utf16 ''abcdefghijk''],
       challenge = utf16 ''c0'', keyImage = utf16 ''ki'', message = utf16 ''hello'',
       groupId = utf16 ''g1'' \<rparr>"

definition test_rand :: "nat \<Rightarrow> js_string" where
  "test_rand k = utf16 ''r'' @ replicate k 48"

text \<open>
  The scenario of the specification, written out by hand: members \<open>[A, B]\<close>, message
  \<open>hello\<close>, signer index 0 with A's keys. \<open>test_seed\<close> is the seed challenge, \<open>test_entry0\<close>
  the signer's entry, \<open>test_chal1\<close> the chain after it, \<open>test_entry1\<close> the filler entry of B
  and \<open>test_chal2\<close> the final chain value.
\<close>

definition test_seed :: js_string where
  "test_seed = sha256_hex test_platform (utf16 ''hello'' @ utf16 ''pkApkB'' @ test_rand 0)"

definition test_entry0 :: js_string where
  "test_entry0 = utf16 ''rsa-sha256:'' @ utf16 ''skA'' @ utf16 ''hello'' @ test_seed"

definition test_chal1 :: js_string where
  "test_chal1 = sha256_hex test_platform (test_seed @ test_entry0 @ utf16 ''pkA'')"

definition test_entry1 :: js_string where
  "test_entry1 = sha256_base64 test_platform (utf16 ''hello'' @ test_rand 1 @ test_chal1)"

definition test_chal2 :: js_string where
  "test_chal2 = sha256_hex test_platform (test_chal1 @ test_entry1 @ utf16 ''pkB'')"

definition test_generated :: LSAGSignature where
  "test_generated =
     \<lparr> ringSignature = [test_entry0, test_entry1], challenge = test_chal2,
       keyImage = sha256_hex test_platform
                    (sha256_hex test_platform (utf16 ''hello'' @ utf16 ''pkA'') @ utf16 ''skA''),
       message = utf16 ''hello'', groupId = utf16 ''g1'' \<rparr>"

lemmas test_defs =
  test_platform_def test_group_def test_signature_def test_rand_def test_seed_def
  test_entry0_def test_chal1_def test_entry1_def test_chal2_def test_generated_def utf16_def

section \<open>Facts about the verification loop\<close>

lemma verify_loop_exit:
  "\<not> i < length (members grp) \<Longrightarrow> verify_loop P sig grp i (c, v) = (c, v)"
  by (simp add: verify_loop.simps)

lemma verify_loop_break:
  "i < length (members grp) \<Longrightarrow> \<not> well_formed_entry (ringSignature sig) i
     \<Longrightarrow> verify_loop P sig grp i (c, v) = (c, False)"
  by (auto simp: verify_loop.simps [of P sig grp i] well_formed_entry_def split: option.splits)

lemma verify_loop_step:
  "i < length (members grp) \<Longrightarrow> well_formed_entry (ringSignature sig) i
     \<Longrightarrow> verify_loop P sig grp i (c, v) =
         verify_loop P sig grp (Suc i)
           (sha256_hex P (c @ ringSignature sig ! i @ publicKey (members grp ! i)), v)"
  by (auto simp: verify_loop.simps [of P sig grp i] well_formed_entry_def js_index_def
           split: option.splits if_splits)

lemma well_formed_entry_iff:
  "well_formed_entry es i \<longleftrightarrow> i < length es \<and> 10 \<le> length (es ! i)"
  by (simp add: well_formed_entry_def js_index_def)

text \<open>The flag the loop ends with: the flag it started with, and every entry from \<open>i\<close> on passing.\<close>

lemma verify_loop_snd:
  "snd (verify_loop P sig grp i (c, v)) =
     (v \<and> (\<forall>j. i \<le> j \<and> j < length (members grp) \<longrightarrow> well_formed_entry (ringSignature sig) j))"
proof (induction "length (members grp) - i" arbitrary: i c)
  case 0
  then show ?case by (auto simp: verify_loop_exit)
next
  case (Suc d)
  then have inr: "i < length (members grp)" by simp
  show ?case
  proof (cases "well_formed_entry (ringSignature sig) i")
    case False
    with inr have "\<not> (\<forall>j. i \<le> j \<and> j < length (members grp) \<longrightarrow>
                          well_formed_entry (ringSignature sig) j)"
      by blast
    with False inr show ?thesis by (simp add: verify_loop_break)
  next
    case ok: True
    have "(\<forall>j. i \<le> j \<and> j < length (members grp) \<longrightarrow> well_formed_entry (ringSignature sig) j) =
          (\<forall>j. Suc i \<le> j \<and> j < length (members grp) \<longrightarrow> well_formed_entry (ringSignature sig) j)"
      using ok by (metis Suc_leI le_neq_implies_less Suc_leD)
    moreover have "d = length (members grp) - Suc i" using Suc.hyps(2) by simp
    ultimately show ?thesis
      using ok inr Suc.hyps(1) [of "Suc i"] by (simp add: verify_loop_step)
  qed
qed

lemma verify_result:
  "verifyLSAGSignature P sig grp =
     Inr (\<forall>i<length (members grp). well_formed_entry (ringSignature sig) i)"
  by (simp add: verifyLSAGSignature_def verify_loop_snd)

text \<open>While the entries pass, the loop runs on and its challenge is the specification's chain.\<close>

lemma verify_loop_prefix:
  assumes "k \<le> length (members grp)" and "i \<le> k"
    and "\<forall>j. i \<le> j \<and> j < k \<longrightarrow> well_formed_entry (ringSignature sig) j"
  shows "verify_loop P sig grp i (c, v) =
           verify_loop P sig grp k
             (chain_spec P c (drop i (take k (ringSignature sig)))
                             (drop i (take k (map publicKey (members grp)))), v)"
  using assms
proof (induction "k - i" arbitrary: i c)
  case 0
  then show ?case by simp
next
  case (Suc d)
  then have lt: "i < k" by simp
  with Suc.prems have inr: "i < length (members grp)"
    and ok: "well_formed_entry (ringSignature sig) i"
    by auto
  from ok have len: "i < length (ringSignature sig)" by (simp add: well_formed_entry_iff)
  have es: "drop i (take k (ringSignature sig)) =
              ringSignature sig ! i # drop (Suc i) (take k (ringSignature sig))"
    using lt len Cons_nth_drop_Suc [of i "take k (ringSignature sig)"] by simp
  have pks: "drop i (take k (map publicKey (members grp))) =
               publicKey (members grp ! i) # drop (Suc i) (take k (map publicKey (members grp)))"
    using lt inr Cons_nth_drop_Suc [of i "take k (map publicKey (members grp))"] by simp
  have "verify_loop P sig grp (Suc i)
           (sha256_hex P (c @ ringSignature sig ! i @ publicKey (members grp ! i)), v) =
        verify_loop P sig grp k
             (chain_spec P (sha256_hex P (c @ ringSignature sig ! i @ publicKey (members grp ! i)))
                (drop (Suc i) (take k (ringSignature sig)))
                (drop (Suc i) (take k (map publicKey (members grp)))), v)"
    using Suc.hyps(2) Suc.prems lt by (intro Suc.hyps(1)) auto
  then show ?case
    using inr ok by (simp add: verify_loop_step es pks)
qed

text \<open>The loop reads the signature only through the entries at the members' positions.\<close>

lemma verify_loop_cong:
  assumes "\<forall>j. i \<le> j \<and> j < length (members grp) \<longrightarrow>
             js_index (ringSignature s1) j = js_index (ringSignature s2) j"
  shows "verify_loop P s1 grp i st = verify_loop P s2 grp i st"
  using assms
proof (induction "length (members grp) - i" arbitrary: i st)
  case 0
  then show ?case by (cases st) (simp add: verify_loop_exit)
next
  case (Suc d)
  obtain c v where st: "st = (c, v)" by (cases st)
  from Suc have inr: "i < length (members grp)" by simp
  with Suc.prems have same: "js_index (ringSignature s1) i = js_index (ringSignature s2) i"
    by auto
  have "verify_loop P s1 grp (Suc i) st' = verify_loop P s2 grp (Suc i) st'" for st'
    using Suc.hyps(2) Suc.prems by (intro Suc.hyps(1)) auto
  then show ?case
    using inr same unfolding st
    by (simp add: verify_loop.simps [of P s1 grp i] verify_loop.simps [of P s2 grp i]
             split: option.splits)
qed

section \<open>Facts about the generation loop\<close>

lemma generate_loop_exit:
  "\<not> i < length (members grp) \<Longrightarrow> generate_loop P m sk rs grp idx i (rsig, c) = Inr (rsig, c)"
  by (simp add: generate_loop.simps)

lemma buildRing_spec_Cons:
  "buildRing_spec P m sk idx i ((r, pk) # rest) c = Some (es, c') \<longleftrightarrow>
     (\<exists>entry es'.
        (if int i = idx then rsa_sign P (m @ c) sk else Some (sha256_base64 P (m @ r @ c))) = Some entry
        \<and> buildRing_spec P m sk idx (Suc i) rest (sha256_hex P (c @ entry @ pk)) = Some (es', c')
        \<and> es = entry # es')"
  by (cases "int i = idx") (auto split: option.splits)

lemma buildRing_spec_length:
  "buildRing_spec P m sk idx i xs c = Some (es, c') \<Longrightarrow> length es = length xs"
proof (induction xs arbitrary: i c es)
  case Nil
  then show ?case by simp
next
  case (Cons x xs)
  obtain r pk where x: "x = (r, pk)" by (cases x)
  from Cons.prems obtain entry es' where
    "buildRing_spec P m sk idx (Suc i) xs (sha256_hex P (c @ entry @ pk)) = Some (es', c')"
    and "es = entry # es'"
    unfolding x buildRing_spec_Cons by blast
  then show ?case using Cons.IH by fastforce
qed

lemma buildRing_spec_total:
  assumes "\<forall>d. rsa_sign P d sk \<noteq> None"
  shows "buildRing_spec P m sk idx i xs c \<noteq> None"
proof (induction xs arbitrary: i c)
  case Nil
  then show ?case by simp
next
  case (Cons x xs)
  obtain r pk where x: "x = (r, pk)" by (cases x)
  define entry where "entry =
    (if int i = idx then rsa_sign P (m @ c) sk else Some (sha256_base64 P (m @ r @ c)))"
  have "entry \<noteq> None" using assms by (simp add: entry_def)
  then obtain e where e: "entry = Some e" by blast
  from Cons.IH [of "Suc i" "sha256_hex P (c @ e @ pk)"]
  obtain es c' where "buildRing_spec P m sk idx (Suc i) xs (sha256_hex P (c @ e @ pk)) = Some (es, c')"
    by auto
  with e show ?case
    unfolding x entry_def by (simp split: option.splits)
qed

lemma generate_loop_refines:
  assumes "length rsig = length (members grp)" and "length rs = length (members grp)"
  shows "generate_loop P m sk rs grp idx i (rsig, c) =
           (case buildRing_spec P m sk idx i
                   (drop i (zip rs (map publicKey (members grp)))) c of
              None \<Rightarrow> Inl SignFailed
            | Some (es, c') \<Rightarrow> Inr (take i rsig @ es, c'))"
  using assms
proof (induction "length (members grp) - i" arbitrary: i rsig c)
  case 0
  then show ?case by (simp add: generate_loop_exit)
next
  case (Suc d)
  then have inr: "i < length (members grp)" by simp
  let ?xs = "zip rs (map publicKey (members grp))"
  have dr: "drop i ?xs = (rs ! i, publicKey (members grp ! i)) # drop (Suc i) ?xs"
    using inr Suc.prems Cons_nth_drop_Suc [of i ?xs] by simp
  have rd: "js_concat_operand (js_index rs i) = rs ! i"
    using inr Suc.prems by (simp add: js_index_def js_concat_operand_def)
  define entry where "entry =
    (if int i = idx then rsa_sign P (m @ c) sk else Some (sha256_base64 P (m @ rs ! i @ c)))"
  show ?case
  proof (cases entry)
    case None
    then have "generate_loop P m sk rs grp idx i (rsig, c) = Inl SignFailed"
      using inr unfolding entry_def
      by (auto simp: generate_loop.simps [of P m sk rs grp idx i] rd split: if_splits)
    moreover have "buildRing_spec P m sk idx i (drop i ?xs) c = None"
      using None unfolding dr entry_def by simp
    ultimately show ?thesis by simp
  next
    case (Some e)
    have ih: "generate_loop P m sk rs grp idx (Suc i)
                (rsig[i := e], sha256_hex P (c @ e @ publicKey (members grp ! i))) =
              (case buildRing_spec P m sk idx (Suc i) (drop (Suc i) ?xs)
                      (sha256_hex P (c @ e @ publicKey (members grp ! i))) of
                 None \<Rightarrow> Inl SignFailed
               | Some (es, c') \<Rightarrow> Inr (take (Suc i) (rsig[i := e]) @ es, c'))"
      using Suc.hyps(2) Suc.prems by (intro Suc.hyps(1)) auto
    have tk: "take (Suc i) (rsig[i := e]) = take i rsig @ [e]"
      using inr Suc.prems by (simp add: take_Suc_conv_app_nth)
    have "generate_loop P m sk rs grp idx i (rsig, c) =
            generate_loop P m sk rs grp idx (Suc i)
                (rsig[i := e], sha256_hex P (c @ e @ publicKey (members grp ! i)))"
      using inr Some unfolding entry_def
      by (auto simp: generate_loop.simps [of P m sk rs grp idx i] rd split: if_splits)
    moreover have "buildRing_spec P m sk idx i (drop i ?xs) c =
            (case buildRing_spec P m sk idx (Suc i) (drop (Suc i) ?xs)
                      (sha256_hex P (c @ e @ publicKey (members grp ! i))) of
               None \<Rightarrow> None | Some (es, c') \<Rightarrow> Some (e # es, c'))"
      using Some unfolding dr entry_def by simp
    ultimately show ?thesis
      by (simp add: ih tk split: option.splits)
  qed
qed


text \<open>The whole function in terms of the specification's construction, for any group.\<close>

lemma generate_unfold:
  "generateLSAGSignature P rand m sk pk grp idx =
     (case buildRing_spec P m sk idx 0
             (zip (map rand [0 ..< length (members grp)]) (map publicKey (members grp)))
             (sha256_hex P (m @ json_stringify P (map publicKey (members grp))
                @ js_concat_operand (js_index (map rand [0 ..< length (members grp)]) 0))) of
        None \<Rightarrow> Inl (FailedToGenerateLSAGSignature SignFailed)
      | Some (entries, c) \<Rightarrow>
          (case group_id grp of
             None \<Rightarrow> Inl (FailedToGenerateLSAGSignature GroupMustHaveId)
           | Some gid \<Rightarrow>
               if gid = [] then Inl (FailedToGenerateLSAGSignature GroupMustHaveId)
               else Inr \<lparr> ringSignature = entries, challenge = c,
                          keyImage = createKeyImage P m sk pk, message = m, groupId = gid \<rparr>))"
  by (simp add: generateLSAGSignature_def generate_loop_refines split: option.splits)

lemma generate_Inr_length:
  assumes "generateLSAGSignature P rand m sk pk grp idx = Inr s"
  shows "length (ringSignature s) = length (members grp)"
proof -
  let ?xs = "zip (map rand [0 ..< length (members grp)]) (map publicKey (members grp))"
  from assms obtain entries c where
    spec: "buildRing_spec P m sk idx 0 ?xs
             (sha256_hex P (m @ json_stringify P (map publicKey (members grp))
                @ js_concat_operand (js_index (map rand [0 ..< length (members grp)]) 0)))
           = Some (entries, c)"
    and s: "ringSignature s = entries"
    unfolding generate_unfold by (auto split: option.splits if_splits)
  from buildRing_spec_length [OF spec] s show ?thesis by simp
qed

lemma seed_first_scalar:
  "members grp \<noteq> [] \<Longrightarrow>
     js_concat_operand (js_index (map rand [0 ..< length (members grp)]) 0) = rand 0"
  by (simp add: js_index_def js_concat_operand_def upt_conv_Cons)

lemma test_generate:
  "generateLSAGSignature test_platform test_rand (utf16 ''hello'') (utf16 ''skA'') (utf16 ''pkA'')
     test_group 0 = Inr test_generated"
  by (simp add: generate_unfold js_index_def js_concat_operand_def createKeyImage_def
                test_defs upt_conv_Cons)

text \<open>
  With no members there is no first scalar: \<open>randomValues[0]\<close> is \<open>undefined\<close> and the seed
  hashes the text \<open>undefined\<close> in its place.
\<close>

lemma generate_empty_group:
  assumes "members grp = []" and "group_id grp = Some gid" and "gid \<noteq> []"
  shows "generateLSAGSignature P rand m sk pk grp idx =
           Inr \<lparr> ringSignature = [],
                 challenge = sha256_hex P (m @ json_stringify P [] @ utf16 ''undefined''),
                 keyImage = createKeyImage P m sk pk, message = m, groupId = gid \<rparr>"
  using assms by (simp add: generate_unfold js_index_def js_concat_operand_def)

section \<open>The key image's definition and message dependence\<close>

text \<open>
  Claim C4. \<open>createKeyImage\<close> is the hex digest of the hex digest of
  \<open>message || publicKey\<close> followed by the private key. It is a function of its three
  arguments and of nothing else (equal inputs give equal outputs) and has no failing branch:
  its result type is a string. It depends on the message: two different messages give two
  different key images under the same keys, unless the digest collides on the strings it
  is applied to in the two computations.
\<close>

theorem createKeyImage_spec:
  "createKeyImage P m sk pk = sha256_hex P (sha256_hex P (m @ pk) @ sk)
   \<and> (m = m' \<and> sk = sk' \<and> pk = pk' \<longrightarrow> createKeyImage P m sk pk = createKeyImage P m' sk' pk')
   \<and> (m \<noteq> m'
        \<and> inj_on (sha256_hex P)
             {m @ pk, m' @ pk, sha256_hex P (m @ pk) @ sk, sha256_hex P (m' @ pk) @ sk} \<longrightarrow>
        createKeyImage P m sk pk \<noteq> createKeyImage P m' sk pk)"
proof (intro conjI impI)
  show "createKeyImage P m sk pk = sha256_hex P (sha256_hex P (m @ pk) @ sk)"
    by (simp add: createKeyImage_def)
next
  assume "m = m' \<and> sk = sk' \<and> pk = pk'"
  then show "createKeyImage P m sk pk = createKeyImage P m' sk' pk'" by simp
next
  let ?S = "{m @ pk, m' @ pk, sha256_hex P (m @ pk) @ sk, sha256_hex P (m' @ pk) @ sk}"
  assume h: "m \<noteq> m' \<and> inj_on (sha256_hex P) ?S"
  then have "m @ pk \<noteq> m' @ pk" by simp
  with h have inner: "sha256_hex P (m @ pk) \<noteq> sha256_hex P (m' @ pk)"
    using inj_onD [of "sha256_hex P" ?S "m @ pk" "m' @ pk"] by auto
  then have "sha256_hex P (m @ pk) @ sk \<noteq> sha256_hex P (m' @ pk) @ sk" by simp
  with h have "sha256_hex P (sha256_hex P (m @ pk) @ sk) \<noteq> sha256_hex P (sha256_hex P (m' @ pk) @ sk)"
    using inj_onD [of "sha256_hex P" ?S "sha256_hex P (m @ pk) @ sk" "sha256_hex P (m' @ pk) @ sk"]
    by auto
  then show "createKeyImage P m sk pk \<noteq> createKeyImage P m' sk pk"
    by (simp add: createKeyImage_def)
qed

theorem createKeyImage_spec_witness:
  "utf16 ''m1'' \<noteq> utf16 ''m2''
   \<and> createKeyImage test_platform (utf16 ''m1'') (utf16 ''skA'') (utf16 ''pkA'') =
       utf16 ''sha256-hex:sha256-hex:m1pkAskA''
   \<and> createKeyImage test_platform (utf16 ''m2'') (utf16 ''skA'') (utf16 ''pkA'') =
       utf16 ''sha256-hex:sha256-hex:m2pkAskA''
   \<and> createKeyImage test_platform (utf16 ''m1'') (utf16 ''skA'') (utf16 ''pkA'') \<noteq>
       createKeyImage test_platform (utf16 ''m2'') (utf16 ''skA'') (utf16 ''pkA'')"
proof -
  have "inj (sha256_hex test_platform)"
    by (simp add: test_platform_def inj_def)
  then have inj: "inj_on (sha256_hex test_platform) A" for A
    by (rule inj_on_subset) simp
  have ne: "utf16 ''m1'' \<noteq> utf16 ''m2''"
    by (simp add: utf16_def)
  show ?thesis
    using inj ne
      createKeyImage_spec [of test_platform "utf16 ''m1''" "utf16 ''skA''" "utf16 ''pkA''"
                              "utf16 ''m2''" "utf16 ''skA''" "utf16 ''pkA''"]
      createKeyImage_spec [of test_platform "utf16 ''m2''" "utf16 ''skA''" "utf16 ''pkA''"
                              "utf16 ''m2''" "utf16 ''skA''" "utf16 ''pkA''"]
    by (simp add: test_platform_def utf16_def)
qed

section \<open>Ring construction\<close>

text \<open>
  Claim C3. For a group with at least one member (so that the first scalar \<open>r\<^sub>0\<close> exists),
  \<open>generateLSAGSignature\<close> with the scalars \<open>rand 0, \<dots>, rand (n - 1)\<close> computes what the
  specification describes: the key image of \<open>createKeyImage\<close>; the seed
  \<open>Hash(m || JSON(publicKeys) || r\<^sub>0)\<close> whatever the signer index; then, in ascending index
  order, the signature of \<open>m || c\<close> at the signer index and the base64 digest of
  \<open>m || r\<^sub>i || c\<close> elsewhere, each followed by \<open>c := Hash(c || entry || publicKey\<^sub>i)\<close>. The
  record returned holds the entries in index order, one per member, and the final \<open>c\<close> as
  its challenge. It is returned when signing succeeds and the group id is a non-empty
  string; otherwise the call fails.
\<close>

theorem generateLSAGSignature_refines_spec:
  assumes "members grp \<noteq> []"
  shows "generateLSAGSignature P rand m sk pk grp idx =
     (case buildRing_spec P m sk idx 0
             (zip (map rand [0 ..< length (members grp)]) (map publicKey (members grp)))
             (sha256_hex P (m @ json_stringify P (map publicKey (members grp)) @ rand 0)) of
        None \<Rightarrow> Inl (FailedToGenerateLSAGSignature SignFailed)
      | Some (entries, c) \<Rightarrow>
          (case group_id grp of
             None \<Rightarrow> Inl (FailedToGenerateLSAGSignature GroupMustHaveId)
           | Some gid \<Rightarrow>
               if gid = [] then Inl (FailedToGenerateLSAGSignature GroupMustHaveId)
               else Inr \<lparr> ringSignature = entries, challenge = c,
                          keyImage = createKeyImage P m sk pk, message = m, groupId = gid \<rparr>))
   \<and> (generateLSAGSignature P rand m sk pk grp idx = Inr s \<longrightarrow>
        length (ringSignature s) = length (members grp))"
  using assms generate_unfold [of P rand m sk pk grp idx] generate_Inr_length [of P rand m sk pk grp idx s]
  by (simp add: seed_first_scalar)

theorem generateLSAGSignature_refines_spec_witness:
  "members test_group \<noteq> []
   \<and> generateLSAGSignature test_platform test_rand (utf16 ''hello'') (utf16 ''skA'') (utf16 ''pkA'')
       test_group 0 = Inr test_generated
   \<and> length (ringSignature test_generated) = length (members test_group)"
proof -
  have ne: "members test_group \<noteq> []" by (simp add: test_defs)
  from generateLSAGSignature_refines_spec
         [OF ne, of test_platform test_rand "utf16 ''hello''" "utf16 ''skA''" "utf16 ''pkA''" 0
                    test_generated]
  show ?thesis
    by (simp add: createKeyImage_def test_defs upt_conv_Cons)
qed

text \<open>
  Claim C7, as stated, fails for a group whose id is present but is the empty string: the
  guard \<open>!group.id\<close> rejects it although signing succeeded.
\<close>

theorem generateLSAGSignature_empty_id_counterexample:
  "group_id (test_group\<lparr>group_id := Some []\<rparr>) = Some []
   \<and> rsa_sign test_platform (utf16 ''hello'' @ test_seed) (utf16 ''skA'') = Some test_entry0
   \<and> generateLSAGSignature test_platform test_rand (utf16 ''hello'') (utf16 ''skA'') (utf16 ''pkA'')
       (test_group\<lparr>group_id := Some []\<rparr>) 0 = Inl (FailedToGenerateLSAGSignature GroupMustHaveId)"
  by (simp add: generate_unfold js_index_def js_concat_operand_def test_defs upt_conv_Cons)

text \<open>
  Claim C7, amended. If \<open>group.id\<close> is absent or the empty string, \<open>generateLSAGSignature\<close>
  fails. If \<open>group.id\<close> is a non-empty string, the only failure left is that of the signing
  primitive; when signing with the given key succeeds, the call returns a signature whose
  \<open>groupId\<close> is \<open>group.id\<close>.
\<close>

theorem generateLSAGSignature_group_id:
  "((group_id grp = None \<or> group_id grp = Some []) \<longrightarrow>
      isl (generateLSAGSignature P rand m sk pk grp idx))
   \<and> (group_id grp = Some gid \<and> gid \<noteq> [] \<longrightarrow>
        generateLSAGSignature P rand m sk pk grp idx = Inl (FailedToGenerateLSAGSignature SignFailed)
        \<or> (\<not> isl (generateLSAGSignature P rand m sk pk grp idx)
            \<and> groupId (projr (generateLSAGSignature P rand m sk pk grp idx)) = gid))
   \<and> (group_id grp = Some gid \<and> gid \<noteq> [] \<and> (\<forall>d. rsa_sign P d sk \<noteq> None) \<longrightarrow>
        \<not> isl (generateLSAGSignature P rand m sk pk grp idx)
        \<and> groupId (projr (generateLSAGSignature P rand m sk pk grp idx)) = gid)"
proof -
  let ?R = "generateLSAGSignature P rand m sk pk grp idx"
  have absent: "isl ?R" if "group_id grp = None \<or> group_id grp = Some []"
    using that unfolding generate_unfold by (auto split: option.splits)
  have present: "?R = Inl (FailedToGenerateLSAGSignature SignFailed)
                 \<or> (\<not> isl ?R \<and> groupId (projr ?R) = gid)"
    if "group_id grp = Some gid \<and> gid \<noteq> []"
    using that unfolding generate_unfold by (auto split: option.splits)
  have signed: "\<not> isl ?R \<and> groupId (projr ?R) = gid"
    if h: "group_id grp = Some gid \<and> gid \<noteq> [] \<and> (\<forall>d. rsa_sign P d sk \<noteq> None)"
  proof -
    from h have "buildRing_spec P m sk idx 0
             (zip (map rand [0 ..< length (members grp)]) (map publicKey (members grp)))
             (sha256_hex P (m @ json_stringify P (map publicKey (members grp))
                @ js_concat_operand (js_index (map rand [0 ..< length (members grp)]) 0))) \<noteq> None"
      by (intro buildRing_spec_total) simp
    with h show ?thesis
      unfolding generate_unfold by (auto split: option.splits)
  qed
  from absent present signed show ?thesis by blast
qed

theorem generateLSAGSignature_group_id_witness:
  "isl (generateLSAGSignature test_platform test_rand (utf16 ''hello'') (utf16 ''skA'') (utf16 ''pkA'')
          (test_group\<lparr>group_id := None\<rparr>) 0)
   \<and> isl (generateLSAGSignature test_platform test_rand (utf16 ''hello'') (utf16 ''skA'') (utf16 ''pkA'')
          (test_group\<lparr>group_id := Some []\<rparr>) 0)
   \<and> generateLSAGSignature test_platform test_rand (utf16 ''hello'') (utf16 ''skA'') (utf16 ''pkA'')
          test_group 0 = Inr test_generated
   \<and> groupId (projr (generateLSAGSignature test_platform test_rand (utf16 ''hello'') (utf16 ''skA'')
          (utf16 ''pkA'') test_group 0)) = utf16 ''g1''"
proof -
  have sign: "\<forall>d. rsa_sign test_platform d (utf16 ''skA'') \<noteq> None"
    by (simp add: test_defs)
  have gid: "group_id test_group = Some (utf16 ''g1'') \<and> utf16 ''g1'' \<noteq> []"
    by (simp add: test_defs)
  show ?thesis
    using sign gid test_generate
      generateLSAGSignature_group_id
        [of "test_group\<lparr>group_id := None\<rparr>" test_platform test_rand "utf16 ''hello''"
            "utf16 ''skA''" "utf16 ''pkA''" 0]
      generateLSAGSignature_group_id
        [of "test_group\<lparr>group_id := Some []\<rparr>" test_platform test_rand "utf16 ''hello''"
            "utf16 ''skA''" "utf16 ''pkA''" 0]
      generateLSAGSignature_group_id
        [of test_group test_platform test_rand "utf16 ''hello''"
            "utf16 ''skA''" "utf16 ''pkA''" 0 "utf16 ''g1''"]
    by simp
qed

section \<open>Ring verification\<close>

text \<open>
  Claim C1. \<open>verifyLSAGSignature\<close> returns true exactly when, at every member position,
  the entry exists and has length at least 10. Replacing the entry at a member position by
  a string shorter than 10 gives false. The loop stops at the first failing position \<open>k\<close>:
  its challenge has then absorbed the entries before \<open>k\<close> and no other, and when no entry
  fails it has absorbed one entry per member. That recomputed challenge is not part of the
  result: another starting challenge and another digest give the same answer.
\<close>

theorem verifyLSAGSignature_structural:
  "verifyLSAGSignature P sig grp =
     Inr (\<forall>i<length (members grp). well_formed_entry (ringSignature sig) i)
   \<and> (i < length (members grp) \<and> i < length (ringSignature sig) \<and> length e < 10 \<longrightarrow>
        verifyLSAGSignature P (sig\<lparr>ringSignature := (ringSignature sig)[i := e]\<rparr>) grp = Inr False)
   \<and> (k \<le> length (members grp) \<and> (\<forall>j<k. well_formed_entry (ringSignature sig) j)
        \<and> (k = length (members grp) \<or> \<not> well_formed_entry (ringSignature sig) k) \<longrightarrow>
        verify_loop P sig grp 0 (challenge sig, True) =
          (chain_spec P (challenge sig) (take k (ringSignature sig))
                        (take k (map publicKey (members grp))),
           k = length (members grp)))
   \<and> verifyLSAGSignature P' (sig\<lparr>challenge := c'\<rparr>) grp = verifyLSAGSignature P sig grp"
proof (intro conjI impI)
  show "verifyLSAGSignature P sig grp =
     Inr (\<forall>i<length (members grp). well_formed_entry (ringSignature sig) i)"
    by (rule verify_result)
next
  assume h: "i < length (members grp) \<and> i < length (ringSignature sig) \<and> length e < 10"
  then have "\<not> well_formed_entry ((ringSignature sig)[i := e]) i"
    by (simp add: well_formed_entry_iff)
  with h have "\<not> (\<forall>j<length (members grp). well_formed_entry ((ringSignature sig)[i := e]) j)"
    by blast
  then show "verifyLSAGSignature P (sig\<lparr>ringSignature := (ringSignature sig)[i := e]\<rparr>) grp = Inr False"
    by (simp add: verify_result)
next
  assume h: "k \<le> length (members grp) \<and> (\<forall>j<k. well_formed_entry (ringSignature sig) j)
        \<and> (k = length (members grp) \<or> \<not> well_formed_entry (ringSignature sig) k)"
  let ?c = "chain_spec P (challenge sig) (take k (ringSignature sig))
                        (take k (map publicKey (members grp)))"
  from h have run: "verify_loop P sig grp 0 (challenge sig, True) = verify_loop P sig grp k (?c, True)"
    using verify_loop_prefix [of k grp 0 sig P "challenge sig" True] by simp
  show "verify_loop P sig grp 0 (challenge sig, True) = (?c, k = length (members grp))"
  proof (cases "k = length (members grp)")
    case True
    then show ?thesis using run by (simp add: verify_loop_exit)
  next
    case False
    with h have "k < length (members grp)" "\<not> well_formed_entry (ringSignature sig) k" by auto
    then show ?thesis using run False by (simp add: verify_loop_break)
  qed
next
  show "verifyLSAGSignature P' (sig\<lparr>challenge := c'\<rparr>) grp = verifyLSAGSignature P sig grp"
    by (simp add: verify_result)
qed

theorem verifyLSAGSignature_structural_witness:
  "verifyLSAGSignature test_platform test_signature test_group = Inr True
   \<and> verifyLSAGSignature test_platform
        (test_signature\<lparr>ringSignature := (ringSignature test_signature)[0 := utf16 ''012345678'']\<rparr>)
        test_group = Inr False
   \<and> verify_loop test_platform test_signature test_group 0 (utf16 ''c0'', True) =
        (utf16 ''sha256-hex:sha256-hex:c00123456789pkAabcdefghijkpkB'', True)
   \<and> verify_loop test_platform
        (test_signature\<lparr>ringSignature := [utf16 ''0123456789'', utf16 ''abc'']\<rparr>) test_group 0
        (utf16 ''c0'', True) = (utf16 ''sha256-hex:c00123456789pkA'', False)
   \<and> verifyLSAGSignature (test_platform\<lparr>sha256_hex := (\<lambda>s. [])\<rparr>)
        (test_signature\<lparr>challenge := utf16 ''anything''\<rparr>) test_group = Inr True"
  using verifyLSAGSignature_structural
          [of test_platform test_signature test_group 0 "utf16 ''012345678''" 2
              "test_platform\<lparr>sha256_hex := (\<lambda>s. [])\<rparr>" "utf16 ''anything''"]
        verifyLSAGSignature_structural
          [of test_platform "test_signature\<lparr>ringSignature := [utf16 ''0123456789'', utf16 ''abc'']\<rparr>"
              test_group 0 "[]" 1 test_platform "[]"]
  by (simp add: test_defs well_formed_entry_iff All_less_Suc numeral_2_eq_2)

text \<open>
  Claim C10. For a group with no members the verifier returns true, whatever the signature
  holds.
\<close>

theorem verify_empty_group:
  assumes "members grp = []"
  shows "verifyLSAGSignature P sig grp = Inr True"
  using assms by (simp add: verifyLSAGSignature_def verify_loop_exit)

theorem verify_empty_group_witness:
  "members (test_group\<lparr>members := []\<rparr>) = []
   \<and> verifyLSAGSignature test_platform (test_signature\<lparr>ringSignature := []\<rparr>)
        (test_group\<lparr>members := []\<rparr>) = Inr True
   \<and> verifyLSAGSignature test_platform
        (test_signature\<lparr>ringSignature := [utf16 ''x'', []]\<rparr>) (test_group\<lparr>members := []\<rparr>) = Inr True"
  using verify_empty_group [of "test_group\<lparr>members := []\<rparr>" test_platform
                               "test_signature\<lparr>ringSignature := []\<rparr>"]
        verify_empty_group [of "test_group\<lparr>members := []\<rparr>" test_platform
                               "test_signature\<lparr>ringSignature := [utf16 ''x'', []]\<rparr>"]
  by simp

text \<open>
  Claim C9. The verifier never fails. With fewer entries than members it returns false.
  With at least as many entries as members, what lies past the last member position is not
  read: replacing it by anything leaves the final state of the loop and the result as they
  were.
\<close>

theorem verify_length_mismatch:
  "verifyLSAGSignature P sig grp \<noteq> Inl err
   \<and> (length (ringSignature sig) < length (members grp) \<longrightarrow>
        verifyLSAGSignature P sig grp = Inr False)
   \<and> (length (members grp) \<le> length (ringSignature sig) \<longrightarrow>
        verify_loop P (sig\<lparr>ringSignature := take (length (members grp)) (ringSignature sig) @ extra\<rparr>)
          grp 0 st = verify_loop P sig grp 0 st
        \<and> verifyLSAGSignature P
            (sig\<lparr>ringSignature := take (length (members grp)) (ringSignature sig) @ extra\<rparr>) grp =
          verifyLSAGSignature P sig grp)"
proof (intro conjI impI)
  show "verifyLSAGSignature P sig grp \<noteq> Inl err"
    by (simp add: verifyLSAGSignature_def)
next
  assume short: "length (ringSignature sig) < length (members grp)"
  then have "\<not> well_formed_entry (ringSignature sig) (length (ringSignature sig))"
    by (simp add: well_formed_entry_iff)
  with short have "\<not> (\<forall>i<length (members grp). well_formed_entry (ringSignature sig) i)"
    by blast
  then show "verifyLSAGSignature P sig grp = Inr False"
    by (simp add: verify_result)
next
  assume long: "length (members grp) \<le> length (ringSignature sig)"
  let ?sig' = "sig\<lparr>ringSignature := take (length (members grp)) (ringSignature sig) @ extra\<rparr>"
  have same: "js_index (ringSignature ?sig') j = js_index (ringSignature sig) j"
    if "j < length (members grp)" for j
    using that long by (simp add: js_index_def nth_append)
  then show loop: "verify_loop P ?sig' grp 0 st = verify_loop P sig grp 0 st"
    by (intro verify_loop_cong) simp
  have "challenge ?sig' = challenge sig" by simp
  then show "verifyLSAGSignature P ?sig' grp = verifyLSAGSignature P sig grp"
    unfolding verifyLSAGSignature_def using verify_loop_cong [of 0 grp ?sig' sig P] same
    by simp
qed

theorem verify_length_mismatch_witness:
  "verifyLSAGSignature test_platform (test_signature\<lparr>ringSignature := [utf16 ''0123456789'']\<rparr>)
     test_group = Inr False
   \<and> verifyLSAGSignature test_platform
        (test_signature\<lparr>ringSignature := ringSignature test_signature @ [utf16 ''x'']\<rparr>) test_group =
      verifyLSAGSignature test_platform test_signature test_group"
  using verify_length_mismatch
          [of test_platform "test_signature\<lparr>ringSignature := [utf16 ''0123456789'']\<rparr>" test_group]
        verify_length_mismatch [of test_platform test_signature test_group _ "[utf16 ''x'']"]
  by (simp add: test_defs)

text \<open>
  Claim C6. Replacing an entry of length at least 10 by any other string of length at
  least 10 (for instance the same string with one character changed) does not change the
  verifier's answer.
\<close>

theorem verify_entry_content_insensitive:
  assumes "i < length (ringSignature sig)"
    and "10 \<le> length (ringSignature sig ! i)"
    and "10 \<le> length e"
  shows "verifyLSAGSignature P (sig\<lparr>ringSignature := (ringSignature sig)[i := e]\<rparr>) grp =
         verifyLSAGSignature P sig grp"
proof -
  have "well_formed_entry ((ringSignature sig)[i := e]) j = well_formed_entry (ringSignature sig) j"
    for j
    using assms by (cases "j = i") (simp_all add: well_formed_entry_iff)
  then show ?thesis by (simp add: verify_result)
qed

theorem verify_entry_content_insensitive_witness:
  "1 < length (ringSignature test_signature)
   \<and> 10 \<le> length (ringSignature test_signature ! 1)
   \<and> 10 \<le> length (utf16 ''abcdefghijX'')
   \<and> utf16 ''abcdefghijX'' \<noteq> ringSignature test_signature ! 1
   \<and> verifyLSAGSignature test_platform
        (test_signature\<lparr>ringSignature := (ringSignature test_signature)[1 := utf16 ''abcdefghijX'']\<rparr>)
        test_group = Inr True
   \<and> verifyLSAGSignature test_platform test_signature test_group = Inr True"
  using verify_entry_content_insensitive
          [of 1 test_signature "utf16 ''abcdefghijX''" test_platform test_group]
        verify_result [of test_platform test_signature test_group]
  by (simp add: test_defs well_formed_entry_iff All_less_Suc)

text \<open>
  Claim C8. Two runs of the verifier on groups with the same number of members, and on
  signatures that agree at every member position on whether the entry exists and on its
  length, return the same answer, whatever the challenge, key image, message, group id,
  entry contents, member public keys and digest are.
\<close>

theorem verify_noninterference:
  assumes "length (members grp1) = length (members grp2)"
    and "\<forall>i<length (members grp1).
           map_option length (js_index (ringSignature sig1) i) =
           map_option length (js_index (ringSignature sig2) i)"
  shows "verifyLSAGSignature P1 sig1 grp1 = verifyLSAGSignature P2 sig2 grp2"
proof -
  have "well_formed_entry (ringSignature sig1) i = well_formed_entry (ringSignature sig2) i"
    if "i < length (members grp1)" for i
  proof -
    from that assms(2)
    have "map_option length (js_index (ringSignature sig1) i) =
          map_option length (js_index (ringSignature sig2) i)" by blast
    then show ?thesis
      by (auto simp: well_formed_entry_def split: option.splits)
  qed
  with assms(1) show ?thesis by (simp add: verify_result)
qed

theorem verify_noninterference_witness:
  "verifyLSAGSignature test_platform test_signature test_group =
   verifyLSAGSignature (test_platform\<lparr>sha256_hex := (\<lambda>s. s)\<rparr>)
     \<lparr> ringSignature = [utf16 ''ZZZZZZZZZZ'', utf16 ''YYYYYYYYYYY'', utf16 ''extra''],
       challenge = utf16 ''other'', keyImage = [], message = utf16 ''bye'', groupId = utf16 ''g2'' \<rparr>
     \<lparr> group_id = None, name = [],
       members = [\<lparr> member_id = [], publicKey = utf16 ''pkX'' \<rparr>,
                  \<lparr> member_id = [], publicKey = utf16 ''pkY'' \<rparr>] \<rparr>"
  by (rule verify_noninterference) (simp_all add: test_defs js_index_def All_less_Suc)

section \<open>Signing, then verifying\<close>

text \<open>
  Claim C2. A signature returned by \<open>generateLSAGSignature\<close> for a group verifies against
  that group whenever each of its entries has length at least 10, and it still verifies
  after its entries are replaced by arbitrary strings of length at least 10.
\<close>

theorem sign_then_verify_roundtrip:
  assumes "generateLSAGSignature P rand m sk pk grp idx = Inr s"
  shows "((\<forall>e\<in>set (ringSignature s). 10 \<le> length e) \<longrightarrow> verifyLSAGSignature P s grp = Inr True)
       \<and> (length es' = length (ringSignature s) \<and> (\<forall>e\<in>set es'. 10 \<le> length e) \<longrightarrow>
            verifyLSAGSignature P (s\<lparr>ringSignature := es'\<rparr>) grp = Inr True)"
proof -
  have ok: "verifyLSAGSignature P (s\<lparr>ringSignature := es\<rparr>) grp = Inr True"
    if "length es = length (ringSignature s)" and "\<forall>e\<in>set es. 10 \<le> length e" for es
  proof -
    from that(1) have "length es = length (members grp)"
      using generate_Inr_length [OF assms] by simp
    with that(2) have "\<forall>i<length (members grp). well_formed_entry es i"
      by (simp add: well_formed_entry_iff)
    then show ?thesis by (simp add: verify_result)
  qed
  from ok [of "ringSignature s"] ok [of es'] show ?thesis by simp
qed

theorem sign_then_verify_roundtrip_witness:
  "generateLSAGSignature test_platform test_rand (utf16 ''hello'') (utf16 ''skA'') (utf16 ''pkA'')
     test_group 0 = Inr test_generated
   \<and> verifyLSAGSignature test_platform test_generated test_group = Inr True
   \<and> verifyLSAGSignature test_platform
        (test_generated\<lparr>ringSignature := [utf16 ''forged-entry-0'', utf16 ''forged-entry-1'']\<rparr>)
        test_group = Inr True"
  using test_generate
        sign_then_verify_roundtrip [OF test_generate, of "[utf16 ''forged-entry-0'', utf16 ''forged-entry-1'']"]
  by (simp add: test_defs)

section \<open>Linked signatures\<close>

text \<open>
  Claim C5. \<open>areLSAGSignaturesLinked\<close> is equality of the two key images as strings,
  nothing being normalised. It holds of a signature and itself, ignores every other field,
  and holds of signatures of different groups whose key images are equal.
\<close>

theorem areLSAGSignaturesLinked_keyImage:
  "areLSAGSignaturesLinked a b = (keyImage a = keyImage b)
   \<and> areLSAGSignaturesLinked s s
   \<and> areLSAGSignaturesLinked
        (a\<lparr>ringSignature := r1, challenge := c1, message := m1, groupId := g1\<rparr>)
        (b\<lparr>ringSignature := r2, challenge := c2, message := m2, groupId := g2\<rparr>) =
      areLSAGSignaturesLinked a b
   \<and> (groupId a \<noteq> groupId b \<and> keyImage a = keyImage b \<longrightarrow> areLSAGSignaturesLinked a b)"
  by (simp add: areLSAGSignaturesLinked_def)

theorem areLSAGSignaturesLinked_keyImage_witness:
  "groupId test_signature \<noteq> groupId (test_generated\<lparr>keyImage := utf16 ''ki'', groupId := utf16 ''g2''\<rparr>)
   \<and> keyImage test_signature = keyImage (test_generated\<lparr>keyImage := utf16 ''ki'', groupId := utf16 ''g2''\<rparr>)
   \<and> areLSAGSignaturesLinked test_signature (test_generated\<lparr>keyImage := utf16 ''ki'', groupId := utf16 ''g2''\<rparr>)
   \<and> \<not> areLSAGSignaturesLinked test_signature (test_signature\<lparr>keyImage := utf16 ''KI''\<rparr>)"
proof -
  let ?b = "test_generated\<lparr>keyImage := utf16 ''ki'', groupId := utf16 ''g2''\<rparr>"
  have h: "groupId test_signature \<noteq> groupId ?b \<and> keyImage test_signature = keyImage ?b"
    by (simp add: test_defs)
  have linked: "areLSAGSignaturesLinked test_signature ?b"
    using h areLSAGSignaturesLinked_keyImage [of test_signature ?b] by blast
  have "keyImage test_signature \<noteq> keyImage (test_signature\<lparr>keyImage := utf16 ''KI''\<rparr>)"
    by (simp add: test_defs)
  then have unlinked: "\<not> areLSAGSignaturesLinked test_signature (test_signature\<lparr>keyImage := utf16 ''KI''\<rparr>)"
    using areLSAGSignaturesLinked_keyImage [of test_signature "test_signature\<lparr>keyImage := utf16 ''KI''\<rparr>"]
    by blast
  from h linked unlinked show ?thesis by simp
qed

end
